theory Spec2Isabelle
  imports Main
begin

section \<open>Python values, dictionaries and the object heap\<close>

text \<open>
  The values a \<^verbatim>\<open>Dict[str, Any]\<close> can hold. \<open>VObj c i\<close> is an opaque, non-iterable
  object of class \<open>c\<close> with identity \<open>i\<close> (a callback handler, a callback manager).
  The wrappers never mutate a value in place: they only rebind a key of a dictionary,
  so values are immutable here and only dictionaries live in the heap.
\<close>

datatype pyval =
    VNone
  | VInt int
  | VStr string
  | VObj string nat
  | VList "pyval list"
  | VTuple "pyval list"
  | VDict "(string \<times> pyval) list"

text \<open>A dictionary keeps its keys in insertion order and holds each key once.\<close>

type_synonym dict = "(string \<times> pyval) list"

text \<open>\<^verbatim>\<open>d[k] = v\<close>: overwrite in place where the key exists, append otherwise.\<close>

fun dict_set :: "string \<Rightarrow> pyval \<Rightarrow> dict \<Rightarrow> dict" where
  "dict_set k v [] = [(k, v)]"
| "dict_set k v ((k', v') # d) =
     (if k' = k then (k, v) # d else (k', v') # dict_set k v d)"

text \<open>\<^verbatim>\<open>d.get(k, default)\<close>.\<close>

definition dict_get :: "dict \<Rightarrow> string \<Rightarrow> pyval \<Rightarrow> pyval" where
  "dict_get d k dflt = (case map_of d k of None \<Rightarrow> dflt | Some v \<Rightarrow> v)"

text \<open>
  Exceptions are values, instances of \<^verbatim>\<open>Exception\<close>: the \<^verbatim>\<open>ConnectError\<close> of the
  HTTP client, \<^verbatim>\<open>TypeError\<close>, \<^verbatim>\<open>ValueError\<close>, \<^verbatim>\<open>UnicodeEncodeError\<close>, and any
  other. Each carries the text that \<^verbatim>\<open>str(e)\<close> gives (for an encoding error, its
  reason).
\<close>

datatype exn =
    ConnectError string
  | TypeError string
  | ValueError string
  | UnicodeEncodeError string
  | OtherException string


fun type_name :: "pyval \<Rightarrow> string" where
  "type_name VNone = ''NoneType''"
| "type_name (VInt _) = ''int''"
| "type_name (VStr _) = ''str''"
| "type_name (VObj c _) = c"
| "type_name (VList _) = ''list''"
| "type_name (VTuple _) = ''tuple''"
| "type_name (VDict _) = ''dict''"

text \<open>
  \<^verbatim>\<open>[*x]\<close>: the items of an iterable; a string yields its characters, a dictionary
  its keys; anything else raises \<^verbatim>\<open>TypeError\<close>.
\<close>

fun unpack :: "pyval \<Rightarrow> exn + pyval list" where
  "unpack (VList xs) = Inr xs"
| "unpack (VTuple xs) = Inr xs"
| "unpack (VStr s) = Inr (map (\<lambda>c. VStr [c]) s)"
| "unpack (VDict d) = Inr (map (\<lambda>kv. VStr (fst kv)) d)"
| "unpack v = Inl (TypeError (''Value after * must be an iterable, not '' @ type_name v))"

text \<open>
  Dictionaries are objects: a reference is an address into the heap, and two references
  to one address see each other's writes.
\<close>

type_synonym ref = nat
type_synonym heap = "dict list"

definition alloc :: "dict \<Rightarrow> heap \<Rightarrow> ref \<times> heap" where
  "alloc d hp = (length hp, hp @ [d])"

section \<open>Workflows and the tracer\<close>

text \<open>
  An entry point (\<^verbatim>\<open>invoke\<close>, or \<^verbatim>\<open>ainvoke\<close> once awaited) takes the state and an
  optional reference to the caller's configuration dictionary; it returns a state or
  raises, and may write to the heap.
\<close>

type_synonym state = dict
type_synonym entry = "state \<Rightarrow> ref option \<Rightarrow> heap \<Rightarrow> (exn + state) \<times> heap"

record workflow =
  wf_name :: string
  invoke :: entry
  ainvoke :: entry

type_synonym wref = nat
type_synonym wstore = "workflow list"

datatype level = INFO | WARNING

type_synonym log = "(level \<times> string) list"

record tracer =
  callback_handler :: "nat option"

text \<open>The value of \<^verbatim>\<open>self.callback_handler\<close> as a list item.\<close>

fun handler_val :: "nat option \<Rightarrow> pyval" where
  "handler_val None = VNone"
| "handler_val (Some h) = VObj ''CallbackHandler'' h"

text \<open>
  \<^verbatim>\<open>config = config or {}\<close>: an absent configuration and an empty dictionary are both
  falsy, so both are replaced by a freshly allocated empty dictionary; a non-empty
  dictionary is kept, by reference.
\<close>

definition config_or_empty :: "ref option \<Rightarrow> heap \<Rightarrow> ref \<times> heap" where
  "config_or_empty config hp =
     (case config of
        None \<Rightarrow> alloc [] hp
      | Some a \<Rightarrow> if hp ! a = [] then alloc [] hp else (a, hp))"

text \<open>
  The closure \<^verbatim>\<open>traced_invoke\<close>, with its captured \<^verbatim>\<open>self\<close> and
  \<^verbatim>\<open>original_invoke\<close> as the first two arguments. The list it builds is a new
  object; the dictionary it writes to is the one it was given, unless that was falsy.
  \<^verbatim>\<open>traced_ainvoke\<close> is the same body around \<^verbatim>\<open>original_ainvoke\<close>, awaited.
\<close>

definition traced_invoke :: "tracer \<Rightarrow> entry \<Rightarrow> entry" where
  "traced_invoke self original_invoke st config hp =
     (case config_or_empty config hp of
        (c, hp1) \<Rightarrow>
          (case unpack (dict_get (hp1 ! c) ''callbacks'' (VList [])) of
             Inl e \<Rightarrow> (Inl e, hp1)
           | Inr config_callbacks \<Rightarrow>
               original_invoke st (Some c)
                 (hp1[c := dict_set ''callbacks''
                            (VList (config_callbacks @ [handler_val (callback_handler self)]))
                            (hp1 ! c)])))"

definition traced_ainvoke :: "tracer \<Rightarrow> entry \<Rightarrow> entry" where
  "traced_ainvoke self original_ainvoke st config hp =
     (case config_or_empty config hp of
        (c, hp1) \<Rightarrow>
          (case unpack (dict_get (hp1 ! c) ''callbacks'' (VList [])) of
             Inl e \<Rightarrow> (Inl e, hp1)
           | Inr config_callbacks \<Rightarrow>
               original_ainvoke st (Some c)
                 (hp1[c := dict_set ''callbacks''
                            (VList (config_callbacks @ [handler_val (callback_handler self)]))
                            (hp1 ! c)])))"

text \<open>
  \<^verbatim>\<open>trace_workflow\<close>: the workflow is an object in the store, named by \<open>w\<close>; the
  result is the returned reference, the store and the log.
\<close>

definition trace_workflow :: "tracer \<Rightarrow> wref \<Rightarrow> wstore \<Rightarrow> log \<Rightarrow> wref \<times> wstore \<times> log" where
  "trace_workflow self w ws lg =
     (if callback_handler self = None then
        (w, ws, lg @ [(WARNING,
           ''Langfuse callback handler not available. Returning original workflow without tracing.'')])
      else
        (let original_invoke = invoke (ws ! w);
             original_ainvoke = ainvoke (ws ! w);
             ws1 = ws[w := (ws ! w)\<lparr>invoke := traced_invoke self original_invoke\<rparr>];
             ws2 = ws1[w := (ws1 ! w)\<lparr>ainvoke := traced_ainvoke self original_ainvoke\<rparr>]
         in (w, ws2, lg)))"

text \<open>
  The test of the wrapping property: \<^verbatim>\<open>for _ in range(n): w = tracer.trace_workflow(w)\<close>.
\<close>

fun wrap_times :: "nat \<Rightarrow> tracer \<Rightarrow> wref \<Rightarrow> wstore \<Rightarrow> log \<Rightarrow> wref \<times> wstore \<times> log" where
  "wrap_times 0 self w ws lg = (w, ws, lg)"
| "wrap_times (Suc n) self w ws lg =
     (case trace_workflow self w ws lg of (w1, ws1, lg1) \<Rightarrow> wrap_times n self w1 ws1 lg1)"

text \<open>
  What a wrapper hands to the original entry point: the configuration reference and the
  heap at the moment of the delegated call, or the \<^verbatim>\<open>TypeError\<close> raised before it.
  Stated apart from the wrappers, to compare them with.
\<close>

definition augmented :: "tracer \<Rightarrow> ref option \<Rightarrow> heap \<Rightarrow> exn + ref \<times> heap" where
  "augmented self config hp =
     (let c = (case config of None \<Rightarrow> length hp
               | Some a \<Rightarrow> if hp ! a = [] then length hp else a);
          hp1 = (if c = length hp then hp @ [[]] else hp)
      in case unpack (dict_get (hp1 ! c) ''callbacks'' (VList [])) of
           Inl e \<Rightarrow> Inl e
         | Inr items \<Rightarrow>
             Inr (c, hp1[c := dict_set ''callbacks''
                                (VList (items @ [handler_val (callback_handler self)]))
                                (hp1 ! c)]))"

text \<open>The entries of a configuration that are not its callbacks, as the executor sees them.\<close>

definition config_view :: "ref option \<Rightarrow> heap \<Rightarrow> string \<rightharpoonup> pyval" where
  "config_view config hp =
     (case config of
        None \<Rightarrow> Map.empty
      | Some a \<Rightarrow> (map_of (hp ! a))(''callbacks'' := None))"

text \<open>The callbacks entry of the configuration is absent or can be unpacked.\<close>

definition callbacks_iterable :: "ref option \<Rightarrow> heap \<Rightarrow> bool" where
  "callbacks_iterable config hp =
     (case config of
        None \<Rightarrow> True
      | Some a \<Rightarrow> \<not> isl (unpack (dict_get (hp ! a) ''callbacks'' (VList []))))"

section \<open>Constructing the tracer\<close>

















section \<open>Fixtures\<close>

text \<open>
  Entry points of an executor to run the model on: one that returns the state it is
  given, one that reports the callbacks entry it receives, one that reports the tag
  entry of its configuration, one that raises.
\<close>

definition echo_entry :: entry where
  "echo_entry st config hp = (Inr st, hp)"

definition probe_entry :: entry where
  "probe_entry st config hp =
     (Inr [(''seen'', case config of
                       None \<Rightarrow> VNone
                     | Some a \<Rightarrow> dict_get (hp ! a) ''callbacks'' VNone)], hp)"

definition tagged_entry :: entry where
  "tagged_entry st config hp =
     (Inr (st @ [(''tag'', case config of
                            None \<Rightarrow> VNone
                          | Some a \<Rightarrow> dict_get (hp ! a) ''tag'' VNone)]), hp)"

definition failing_entry :: entry where
  "failing_entry st config hp = (Inl (OtherException ''recursion limit reached''), hp)"

definition demo_app :: workflow where
  "demo_app = \<lparr>wf_name = ''ExecutiveAssistant'', invoke = probe_entry, ainvoke = probe_entry\<rparr>"

definition demo_tracer :: tracer where
  "demo_tracer = \<lparr>callback_handler = Some 1\<rparr>"



section \<open>Dictionaries and wrappers: basic facts\<close>

lemma map_of_dict_set: "map_of (dict_set k v d) = (map_of d)(k \<mapsto> v)"
  by (induction d) (auto simp: fun_eq_iff)

lemma dict_set_nonempty: "dict_set k v d \<noteq> []"
  by (cases d) (auto split: if_splits)

lemma dict_set_twice: "dict_set k v (dict_set k v' d) = dict_set k v d"
  by (induction d) auto

lemma dict_set_same: "map_of d k = Some v \<Longrightarrow> dict_set k v d = d"
  by (induction d) (auto split: if_splits)

lemma trace_workflow_present:
  assumes "callback_handler self = Some h" and "w < length ws"
  shows "trace_workflow self w ws lg =
    (w, ws[w := (ws ! w)\<lparr>invoke := traced_invoke self (invoke (ws ! w)),
                          ainvoke := traced_ainvoke self (ainvoke (ws ! w))\<rparr>], lg)"
  using assms by (simp add: trace_workflow_def Let_def)

lemma traced_invoke_list:
  assumes "map_of (hp ! a) ''callbacks'' = Some (VList cs)"
  shows "traced_invoke self orig st (Some a) hp =
     orig st (Some a)
       (hp[a := dict_set ''callbacks''
                  (VList (cs @ [handler_val (callback_handler self)])) (hp ! a)])"
proof -
  from assms have "hp ! a \<noteq> []" by auto
  then show ?thesis using assms
    by (simp add: traced_invoke_def config_or_empty_def dict_get_def)
qed

lemma traced_invoke_none:
  "traced_invoke self orig st None hp =
     orig st (Some (length hp))
       (hp @ [[(''callbacks'', VList [handler_val (callback_handler self)])]])"
  by (simp add: traced_invoke_def config_or_empty_def alloc_def dict_get_def)

lemma traced_ainvoke_eq: "traced_ainvoke = traced_invoke"
  by (intro ext) (simp add: traced_ainvoke_def traced_invoke_def)

section \<open>Pass-through without a handle\<close>

text \<open>
  C1. When the tracer holds no handle, \<^verbatim>\<open>trace_workflow\<close> returns the reference it was
  given and leaves the store as it was, so both entry points of the returned workflow
  give, on every state, configuration and heap, what those of the workflow gave before.
\<close>

theorem no_handle_passthrough:
  assumes "callback_handler self = None"
    and "trace_workflow self w ws lg = (w', ws', lg')"
  shows "w' = w \<and> ws' = ws
       \<and> invoke (ws' ! w') st config hp = invoke (ws ! w) st config hp
       \<and> ainvoke (ws' ! w') st config hp = ainvoke (ws ! w) st config hp"
  using assms by (auto simp: trace_workflow_def)

theorem no_handle_passthrough_witness:
  "callback_handler \<lparr>callback_handler = None\<rparr> = None
   \<and> fst (trace_workflow \<lparr>callback_handler = None\<rparr> 0 [demo_app] []) = 0
   \<and> fst (snd (trace_workflow \<lparr>callback_handler = None\<rparr> 0 [demo_app] [])) = [demo_app]
   \<and> invoke (fst (snd (trace_workflow \<lparr>callback_handler = None\<rparr> 0 [demo_app] [])) ! 0)
         [] (Some 0) [[(''callbacks'', VList [VInt 7])]]
       = (Inr [(''seen'', VList [VInt 7])], [[(''callbacks'', VList [VInt 7])]])"
proof -
  obtain w' ws' lg' where
    t: "trace_workflow \<lparr>callback_handler = None\<rparr> 0 [demo_app] [] = (w', ws', lg')"
    by (cases "trace_workflow \<lparr>callback_handler = None\<rparr> 0 [demo_app] []") auto
  have h: "callback_handler \<lparr>callback_handler = None\<rparr> = None" by simp
  from no_handle_passthrough [OF h t, of "[]" "Some 0" "[[(''callbacks'', VList [VInt 7])]]"]
  show ?thesis using t by (simp add: demo_app_def probe_entry_def dict_get_def)
qed

section \<open>What the traced entry points pass on\<close>

text \<open>
  C2. After \<^verbatim>\<open>trace_workflow\<close> with a handle \<open>h\<close>, calling either entry point of the
  workflow with a configuration whose callbacks entry is the list \<open>cs\<close> is calling the
  original entry point with the same configuration object, whose callbacks entry now is
  \<open>cs\<close> followed by the one handle; without a configuration, the original entry point
  gets a new dictionary whose only entry is the callbacks list holding the handle.
\<close>

theorem traced_entry_appends_handle:
  assumes "callback_handler self = Some h"
    and "w < length ws"
    and "trace_workflow self w ws lg = (w', ws', lg')"
  shows "(a < length hp \<and> map_of (hp ! a) ''callbacks'' = Some (VList cs)
            \<and> hp' = hp[a := dict_set ''callbacks''
                               (VList (cs @ [VObj ''CallbackHandler'' h])) (hp ! a)]
          \<longrightarrow> invoke (ws' ! w') st (Some a) hp = invoke (ws ! w) st (Some a) hp'
            \<and> ainvoke (ws' ! w') st (Some a) hp = ainvoke (ws ! w) st (Some a) hp'
            \<and> map_of (hp' ! a) ''callbacks'' = Some (VList (cs @ [VObj ''CallbackHandler'' h])))
       \<and> invoke (ws' ! w') st None hp
           = invoke (ws ! w) st (Some (length hp))
               (hp @ [[(''callbacks'', VList [VObj ''CallbackHandler'' h])]])
       \<and> ainvoke (ws' ! w') st None hp
           = ainvoke (ws ! w) st (Some (length hp))
               (hp @ [[(''callbacks'', VList [VObj ''CallbackHandler'' h])]])"
proof -
  from assms(3) have w': "w' = w"
    and ws': "ws' = ws[w := (ws ! w)\<lparr>invoke := traced_invoke self (invoke (ws ! w)),
                          ainvoke := traced_ainvoke self (ainvoke (ws ! w))\<rparr>]"
    using trace_workflow_present [OF assms(1,2), of lg] by auto
  have i: "invoke (ws' ! w') = traced_invoke self (invoke (ws ! w))"
    and ai: "ainvoke (ws' ! w') = traced_invoke self (ainvoke (ws ! w))"
    using assms(2) by (simp_all add: w' ws' traced_ainvoke_eq)
  have hv: "handler_val (callback_handler self) = VObj ''CallbackHandler'' h"
    using assms(1) by simp
  show ?thesis
    unfolding i ai
    by (simp add: traced_invoke_list traced_invoke_none hv map_of_dict_set)
qed

theorem traced_entry_appends_handle_witness:
  "fst (invoke (fst (snd (trace_workflow demo_tracer 0 [demo_app] [])) ! 0) []
          (Some 0) [[(''callbacks'', VList [VObj ''UserHandler'' 9]), (''tags'', VStr ''x'')]])
     = Inr [(''seen'', VList [VObj ''UserHandler'' 9, VObj ''CallbackHandler'' 1])]
   \<and> fst (ainvoke (fst (snd (trace_workflow demo_tracer 0 [demo_app] [])) ! 0) [] None [])
     = Inr [(''seen'', VList [VObj ''CallbackHandler'' 1])]"
proof -
  let ?hp = "[[(''callbacks'', VList [VObj ''UserHandler'' 9]), (''tags'', VStr ''x'')]]"
  obtain w' ws' lg' where t: "trace_workflow demo_tracer 0 [demo_app] [] = (w', ws', lg')"
    by (cases "trace_workflow demo_tracer 0 [demo_app] []") auto
  have h1: "callback_handler demo_tracer = Some 1" by (simp add: demo_tracer_def)
  have h2: "(0::nat) < length [demo_app]" by simp
  have w: "w' = 0" using t by (simp add: trace_workflow_def demo_tracer_def Let_def)
  have a: "invoke (ws' ! w') [] (Some 0) ?hp = invoke ([demo_app] ! 0) [] (Some 0)
             (?hp[0 := dict_set ''callbacks''
                (VList ([VObj ''UserHandler'' 9] @ [VObj ''CallbackHandler'' 1])) (?hp ! 0)])"
    using traced_entry_appends_handle [OF h1 h2 t, of 0 ?hp "[VObj ''UserHandler'' 9]" _ "[]"]
    by simp
  have b: "ainvoke (ws' ! w') [] None []
             = ainvoke ([demo_app] ! 0) [] (Some (length ([]::heap)))
                 ([] @ [[(''callbacks'', VList [VObj ''CallbackHandler'' 1])]])"
    using traced_entry_appends_handle [OF h1 h2 t, of 0 "[]" "[]" "[]" "[]"] by blast
  show ?thesis
    using a b unfolding t w by (simp add: demo_app_def probe_entry_def dict_get_def)
qed

section \<open>Results and exceptions of the delegated call\<close>

lemma config_or_empty_cases:
  assumes "case config of None \<Rightarrow> True | Some a \<Rightarrow> a < length hp"
  shows "config_or_empty config hp =
     (let c = (case config of None \<Rightarrow> length hp
               | Some a \<Rightarrow> if hp ! a = [] then length hp else a)
      in (c, if c = length hp then hp @ [[]] else hp))"
  using assms by (auto simp: config_or_empty_def alloc_def Let_def split: option.splits)

lemma traced_invoke_augmented:
  assumes "case config of None \<Rightarrow> True | Some a \<Rightarrow> a < length hp"
  shows "traced_invoke self orig st config hp =
     (case augmented self config hp of
        Inl e \<Rightarrow> (Inl e, snd (config_or_empty config hp))
      | Inr (c, hp2) \<Rightarrow> orig st (Some c) hp2)"
  unfolding traced_invoke_def augmented_def config_or_empty_cases [OF assms]
  by (simp add: Let_def split: sum.splits)

text \<open>
  C4. Whenever a traced entry point reaches its delegated call, with configuration \<open>c\<close>
  on heap \<open>hp2\<close>, what it gives back is what the original entry point gives there: the
  returned state when it returns, the same exception when it raises, and the heap as one
  call of the original leaves it. The only other outcome is the wrapper's own
  \<^verbatim>\<open>TypeError\<close>, raised before the original is called.
\<close>

theorem traced_result_forwarded:
  assumes "case config of None \<Rightarrow> True | Some a \<Rightarrow> a < length hp"
  shows "(augmented self config hp = Inr (c, hp2) \<longrightarrow>
            traced_invoke self original_invoke st config hp = original_invoke st (Some c) hp2
          \<and> traced_ainvoke self original_ainvoke st config hp = original_ainvoke st (Some c) hp2
          \<and> (fst (original_invoke st (Some c) hp2) = Inl e
               \<longrightarrow> fst (traced_invoke self original_invoke st config hp) = Inl e)
          \<and> (fst (original_ainvoke st (Some c) hp2) = Inl e
               \<longrightarrow> fst (traced_ainvoke self original_ainvoke st config hp) = Inl e))
       \<and> (augmented self config hp = Inl e' \<longrightarrow>
            fst (traced_invoke self original_invoke st config hp) = Inl e'
          \<and> fst (traced_ainvoke self original_ainvoke st config hp) = Inl e')"
  by (simp add: traced_ainvoke_eq traced_invoke_augmented [OF assms])

theorem traced_result_forwarded_witness:
  "traced_invoke demo_tracer failing_entry [(''messages'', VList [VStr ''hi''])] (Some 0)
       [[(''recursion_limit'', VInt 2)]]
     = (Inl (OtherException ''recursion limit reached''),
        [[(''recursion_limit'', VInt 2), (''callbacks'', VList [VObj ''CallbackHandler'' 1])]])
   \<and> traced_ainvoke demo_tracer echo_entry [(''messages'', VList [VStr ''hi''])] (Some 0)
       [[(''recursion_limit'', VInt 2)]]
     = (Inr [(''messages'', VList [VStr ''hi''])],
        [[(''recursion_limit'', VInt 2), (''callbacks'', VList [VObj ''CallbackHandler'' 1])]])"
proof -
  let ?hp = "[[(''recursion_limit'', VInt 2)]]"
  let ?hp2 = "[[(''recursion_limit'', VInt 2), (''callbacks'', VList [VObj ''CallbackHandler'' 1])]]"
  have wf: "case Some 0 of None \<Rightarrow> True | Some a \<Rightarrow> a < length ?hp" by simp
  have au: "augmented demo_tracer (Some 0) ?hp = Inr (0, ?hp2)"
    by (simp add: augmented_def demo_tracer_def dict_get_def)
  from traced_result_forwarded [OF wf, of demo_tracer 0 ?hp2 failing_entry
      "[(''messages'', VList [VStr ''hi''])]" echo_entry] au
  show ?thesis by (simp add: failing_entry_def echo_entry_def)
qed

section \<open>Wrapping several times\<close>

lemma wrap_times_present:
  assumes "callback_handler self = Some h" and "w < length ws"
  shows "\<exists>ws'. wrap_times n self w ws lg = (w, ws', lg) \<and> length ws' = length ws
           \<and> invoke (ws' ! w) = (traced_invoke self ^^ n) (invoke (ws ! w))
           \<and> ainvoke (ws' ! w) = (traced_invoke self ^^ n) (ainvoke (ws ! w))"
  using assms(2)
proof (induction n arbitrary: ws)
  case 0
  then show ?case by simp
next
  case (Suc n)
  let ?ws1 = "ws[w := (ws ! w)\<lparr>invoke := traced_invoke self (invoke (ws ! w)),
                               ainvoke := traced_ainvoke self (ainvoke (ws ! w))\<rparr>]"
  have len: "w < length ?ws1" using Suc.prems by simp
  from Suc.IH [OF len] obtain ws' where
    r: "wrap_times n self w ?ws1 lg = (w, ws', lg)" and l: "length ws' = length ?ws1"
    and i: "invoke (ws' ! w) = (traced_invoke self ^^ n) (invoke (?ws1 ! w))"
    and a: "ainvoke (ws' ! w) = (traced_invoke self ^^ n) (ainvoke (?ws1 ! w))"
    by blast
  have "wrap_times (Suc n) self w ws lg = (w, ws', lg)"
    using r by (simp add: trace_workflow_present [OF assms(1) Suc.prems])
  moreover have "invoke (ws' ! w) = (traced_invoke self ^^ Suc n) (invoke (ws ! w))"
    using i Suc.prems by (simp add: funpow_swap1)
  moreover have "ainvoke (ws' ! w) = (traced_invoke self ^^ Suc n) (ainvoke (ws ! w))"
    using a Suc.prems by (simp add: funpow_swap1 traced_ainvoke_eq)
  ultimately show ?case using l by simp
qed

lemma traced_invoke_funpow:
  assumes "a < length hp" and "map_of (hp ! a) ''callbacks'' = Some (VList cs)"
  shows "(traced_invoke self ^^ n) orig st (Some a) hp =
     orig st (Some a)
       (hp[a := dict_set ''callbacks''
                  (VList (cs @ replicate n (handler_val (callback_handler self)))) (hp ! a)])"
  using assms
proof (induction n arbitrary: hp cs)
  case 0
  then show ?case by (simp add: dict_set_same)
next
  case (Suc n)
  let ?H = "handler_val (callback_handler self)"
  let ?hp1 = "hp[a := dict_set ''callbacks'' (VList (cs @ [?H])) (hp ! a)]"
  have l1: "a < length ?hp1" using Suc.prems(1) by simp
  have m1: "map_of (?hp1 ! a) ''callbacks'' = Some (VList (cs @ [?H]))"
    using Suc.prems(1) by (simp add: map_of_dict_set)
  have "(traced_invoke self ^^ Suc n) orig st (Some a) hp
          = (traced_invoke self ^^ n) orig st (Some a) ?hp1"
    by (simp add: traced_invoke_list [OF Suc.prems(2)])
  also have "\<dots> = orig st (Some a)
       (?hp1[a := dict_set ''callbacks'' (VList ((cs @ [?H]) @ replicate n ?H)) (?hp1 ! a)])"
    by (rule Suc.IH [OF l1 m1])
  also have "?hp1[a := dict_set ''callbacks'' (VList ((cs @ [?H]) @ replicate n ?H)) (?hp1 ! a)]
       = hp[a := dict_set ''callbacks'' (VList (cs @ replicate (Suc n) ?H)) (hp ! a)]"
    using Suc.prems(1) by (simp add: dict_set_twice)
  finally show ?case .
qed

text \<open>
  C5. After \<open>n\<close> wraps with a tracer that holds a handle, one call with a configuration
  whose callbacks list \<open>cs\<close> has length \<open>k\<close> reaches the innermost (original) entry point
  with a callbacks list of \<open>cs\<close> followed by \<open>n\<close> copies of the handle: length \<open>k + n\<close>.
\<close>

theorem wrapping_grows_linearly:
  assumes "callback_handler self = Some h"
    and "w < length ws"
    and "wrap_times n self w ws lg = (w', ws', lg')"
    and "a < length hp"
    and "map_of (hp ! a) ''callbacks'' = Some (VList cs)"
    and "hp' = hp[a := dict_set ''callbacks''
                       (VList (cs @ replicate n (VObj ''CallbackHandler'' h))) (hp ! a)]"
  shows "invoke (ws' ! w') st (Some a) hp = invoke (ws ! w) st (Some a) hp'
       \<and> ainvoke (ws' ! w') st (Some a) hp = ainvoke (ws ! w) st (Some a) hp'
       \<and> (\<exists>cs'. map_of (hp' ! a) ''callbacks'' = Some (VList cs')
                 \<and> length cs' = length cs + n)"
proof -
  from wrap_times_present [OF assms(1,2), of n lg] assms(3)
  have w': "w' = w"
    and i: "invoke (ws' ! w) = (traced_invoke self ^^ n) (invoke (ws ! w))"
    and ai: "ainvoke (ws' ! w) = (traced_invoke self ^^ n) (ainvoke (ws ! w))"
    by auto
  have hv: "handler_val (callback_handler self) = VObj ''CallbackHandler'' h"
    using assms(1) by simp
  have "map_of (hp' ! a) ''callbacks''
          = Some (VList (cs @ replicate n (VObj ''CallbackHandler'' h)))"
    using assms(4) unfolding assms(6) by (simp add: map_of_dict_set)
  then show ?thesis
    unfolding w' i ai assms(6)
    using traced_invoke_funpow [OF assms(4,5), where self = self and n = n]
    by (simp add: hv)
qed

theorem wrapping_grows_linearly_witness:
  "fst (invoke (fst (snd (wrap_times 2 demo_tracer 0 [demo_app] [])) ! 0) []
          (Some 0) [[(''callbacks'', VList [VObj ''UserHandler'' 9])]])
     = Inr [(''seen'', VList [VObj ''UserHandler'' 9,
                               VObj ''CallbackHandler'' 1, VObj ''CallbackHandler'' 1])]"
proof -
  let ?hp = "[[(''callbacks'', VList [VObj ''UserHandler'' 9])]]"
  obtain w' ws' lg' where t: "wrap_times 2 demo_tracer 0 [demo_app] [] = (w', ws', lg')"
    by (cases "wrap_times 2 demo_tracer 0 [demo_app] []") auto
  have h1: "callback_handler demo_tracer = Some 1" by (simp add: demo_tracer_def)
  have h2: "(0::nat) < length [demo_app]" by simp
  have h4: "(0::nat) < length ?hp" by simp
  have h5: "map_of (?hp ! 0) ''callbacks'' = Some (VList [VObj ''UserHandler'' 9])" by simp
  have r: "replicate 2 (VObj ''CallbackHandler'' 1)
             = [VObj ''CallbackHandler'' 1, VObj ''CallbackHandler'' 1]"
    by (simp add: numeral_2_eq_2)
  from wrapping_grows_linearly [OF h1 h2 t h4 h5 refl, of "[]"]
  have "invoke (ws' ! w') [] (Some 0) ?hp = invoke ([demo_app] ! 0) [] (Some 0)
          (?hp[0 := dict_set ''callbacks''
             (VList ([VObj ''UserHandler'' 9] @ replicate 2 (VObj ''CallbackHandler'' 1)))
             (?hp ! 0)])"
    by blast
  moreover have "w' = 0"
    using wrap_times_present [OF h1 h2, of 2 "[]"] t by auto
  ultimately show ?thesis
    unfolding t r by (simp add: demo_app_def probe_entry_def dict_get_def)
qed

section \<open>The workflow object after wrapping\<close>

text \<open>
  C9. With a handle present, \<^verbatim>\<open>trace_workflow\<close> returns the reference it was given, and
  the object at that reference now carries the traced closures as its \<^verbatim>\<open>invoke\<close> and
  \<^verbatim>\<open>ainvoke\<close>, each built on the entry point that was there before. Every reference to
  the workflow is that one address, the caller's included, so an attribute lookup
  through any of them gives the traced entry points.
\<close>

theorem trace_workflow_in_place:
  assumes "callback_handler self = Some h"
    and "w < length ws"
    and "trace_workflow self w ws lg = (w', ws', lg')"
  shows "w' = w
       \<and> invoke (ws' ! w) = traced_invoke self (invoke (ws ! w))
       \<and> ainvoke (ws' ! w) = traced_ainvoke self (ainvoke (ws ! w))"
  using assms(3) trace_workflow_present [OF assms(1,2), of lg] assms(2) by auto

theorem trace_workflow_in_place_witness:
  "fst (trace_workflow demo_tracer 0 [demo_app] []) = 0
   \<and> invoke (fst (snd (trace_workflow demo_tracer 0 [demo_app] [])) ! 0)
       = traced_invoke demo_tracer probe_entry
   \<and> ainvoke (fst (snd (trace_workflow demo_tracer 0 [demo_app] [])) ! 0)
       = traced_ainvoke demo_tracer probe_entry"
proof -
  obtain w' ws' lg' where t: "trace_workflow demo_tracer 0 [demo_app] [] = (w', ws', lg')"
    by (cases "trace_workflow demo_tracer 0 [demo_app] []") auto
  have h1: "callback_handler demo_tracer = Some 1" by (simp add: demo_tracer_def)
  have h2: "(0::nat) < length [demo_app]" by simp
  from trace_workflow_in_place [OF h1 h2 t] show ?thesis
    unfolding t by (simp add: demo_app_def)
qed

text \<open>
  C7, as the spec states it, asks for a new workflow object, distinct from the argument,
  and for the argument to stay as it was. On the code the returned reference is the
  argument, and the object behind it has changed: its \<^verbatim>\<open>invoke\<close> now reports the
  handle where it reported none before.
\<close>

theorem trace_workflow_new_object_counterexample:
  "fst (trace_workflow demo_tracer 0 [demo_app] []) = 0
   \<and> length (fst (snd (trace_workflow demo_tracer 0 [demo_app] []))) = 1
   \<and> fst (invoke ([demo_app] ! 0) [] None []) = Inr [(''seen'', VNone)]
   \<and> fst (invoke (fst (snd (trace_workflow demo_tracer 0 [demo_app] [])) ! 0) [] None [])
       = Inr [(''seen'', VList [VObj ''CallbackHandler'' 1])]"
  by (simp add: trace_workflow_def demo_tracer_def demo_app_def Let_def probe_entry_def
      traced_invoke_def config_or_empty_def alloc_def dict_get_def)

text \<open>
  C7, amended. With a handle present, \<^verbatim>\<open>trace_workflow\<close> returns the workflow object it
  was given, and allocates none. That object exposes the same two entry points, each
  replaced by its wrapped version; its other attributes, and every other object of the
  store, are as before.
\<close>

theorem trace_workflow_same_object:
  assumes "callback_handler self = Some h"
    and "w < length ws"
    and "trace_workflow self w ws lg = (w', ws', lg')"
  shows "w' = w \<and> length ws' = length ws \<and> lg' = lg
       \<and> (\<forall>v. v \<noteq> w \<longrightarrow> ws' ! v = ws ! v)
       \<and> ws' ! w = (ws ! w)\<lparr>invoke := traced_invoke self (invoke (ws ! w)),
                              ainvoke := traced_ainvoke self (ainvoke (ws ! w))\<rparr>
       \<and> wf_name (ws' ! w) = wf_name (ws ! w)
       \<and> workflow.more (ws' ! w) = workflow.more (ws ! w)"
  using assms(3) trace_workflow_present [OF assms(1,2), of lg] assms(2) by auto

theorem trace_workflow_same_object_witness:
  "trace_workflow demo_tracer 0 [demo_app, demo_app\<lparr>wf_name := ''MixedTaskSolver''\<rparr>] []
     = (0, [demo_app\<lparr>invoke := traced_invoke demo_tracer probe_entry,
                       ainvoke := traced_ainvoke demo_tracer probe_entry\<rparr>,
            demo_app\<lparr>wf_name := ''MixedTaskSolver''\<rparr>], [])"
proof -
  let ?ws = "[demo_app, demo_app\<lparr>wf_name := ''MixedTaskSolver''\<rparr>]"
  obtain w' ws' lg' where t: "trace_workflow demo_tracer 0 ?ws [] = (w', ws', lg')"
    by (cases "trace_workflow demo_tracer 0 ?ws []") auto
  have h1: "callback_handler demo_tracer = Some 1" by (simp add: demo_tracer_def)
  have h2: "(0::nat) < length ?ws" by simp
  from trace_workflow_same_object [OF h1 h2 t]
  have f: "w' = 0" "length ws' = 2" "lg' = []" "ws' ! 1 = ?ws ! 1"
    "ws' ! 0 = (?ws ! 0)\<lparr>invoke := traced_invoke demo_tracer (invoke (?ws ! 0)),
                           ainvoke := traced_ainvoke demo_tracer (ainvoke (?ws ! 0))\<rparr>"
    by simp_all
  have "ws' = [ws' ! 0, ws' ! 1]"
    using f(2) by (intro nth_equalityI) (auto simp: less_Suc_eq numeral_2_eq_2)
  then show ?thesis unfolding t using f by (simp add: demo_app_def)
qed

section \<open>Transparency towards the caller\<close>

text \<open>
  C6, as the spec states it, holds for every configuration and leaves the caller nothing
  to observe but trace events. A configuration whose callbacks entry is \<^verbatim>\<open>None\<close> is
  accepted by an executor that ignores the entry, and rejected by the traced entry point
  with a \<^verbatim>\<open>TypeError\<close>. And a caller who passes a dictionary of tags finds a callbacks
  key in it after the traced call, and none after the untraced call.
\<close>

theorem traced_transparent_counterexample:
  "fst (echo_entry [(''messages'', VList [])] (Some 0) [[(''callbacks'', VNone)]])
     = Inr [(''messages'', VList [])]
   \<and> fst (traced_invoke demo_tracer echo_entry [(''messages'', VList [])] (Some 0)
            [[(''callbacks'', VNone)]])
     = Inl (TypeError ''Value after * must be an iterable, not NoneType'')
   \<and> snd (echo_entry [] (Some 0) [[(''tags'', VList [VStr ''x''])]])
     = [[(''tags'', VList [VStr ''x''])]]
   \<and> snd (traced_invoke demo_tracer echo_entry [] (Some 0) [[(''tags'', VList [VStr ''x''])]])
     = [[(''tags'', VList [VStr ''x'']), (''callbacks'', VList [VObj ''CallbackHandler'' 1])]]"
  by (simp add: echo_entry_def traced_invoke_def config_or_empty_def dict_get_def
      demo_tracer_def)

text \<open>
  C6, amended. For a configuration that is absent, or whose callbacks entry is absent or
  iterable, and an executor whose result depends on the configuration only through its
  entries other than callbacks, both traced entry points give the result (returned state
  or exception) that the untraced entry point gives on the same state and configuration.
\<close>

theorem traced_same_result:
  assumes "case config of None \<Rightarrow> True | Some a \<Rightarrow> a < length hp"
    and "callbacks_iterable config hp"
    and "\<forall>c1 hp1 c2 hp2. config_view c1 hp1 = config_view c2 hp2
           \<longrightarrow> fst (orig st c1 hp1) = fst (orig st c2 hp2)"
  shows "fst (traced_invoke self orig st config hp) = fst (orig st config hp)
       \<and> fst (traced_ainvoke self orig st config hp) = fst (orig st config hp)"
proof -
  have ind: "\<And>c1 hp1 c2 hp2. config_view c1 hp1 = config_view c2 hp2
           \<Longrightarrow> fst (orig st c1 hp1) = fst (orig st c2 hp2)"
    using assms(3) by blast
  have "fst (traced_invoke self orig st config hp) = fst (orig st config hp)"
  proof (cases config)
    case None
    show ?thesis unfolding None traced_invoke_none
      by (rule ind) (simp add: config_view_def fun_eq_iff)
  next
    case (Some a)
    with assms(1) have a: "a < length hp" by simp
    show ?thesis
    proof (cases "hp ! a = []")
      case True
      have "traced_invoke self orig st (Some a) hp = orig st (Some (length hp))
              (hp @ [[(''callbacks'', VList [handler_val (callback_handler self)])]])"
        using True by (simp add: traced_invoke_def config_or_empty_def alloc_def dict_get_def)
      then show ?thesis unfolding Some
        using True by (simp add: ind config_view_def fun_eq_iff)
    next
      case False
      from assms(2) obtain items where
        u: "unpack (dict_get (hp ! a) ''callbacks'' (VList [])) = Inr items"
        unfolding Some callbacks_iterable_def
        by (cases "unpack (dict_get (hp ! a) ''callbacks'' (VList []))") auto
      have "traced_invoke self orig st (Some a) hp = orig st (Some a)
              (hp[a := dict_set ''callbacks''
                   (VList (items @ [handler_val (callback_handler self)])) (hp ! a)])"
        using False u by (simp add: traced_invoke_def config_or_empty_def)
      then show ?thesis unfolding Some
        using a by (simp add: ind config_view_def map_of_dict_set)
    qed
  qed
  then show ?thesis by (simp add: traced_ainvoke_eq)
qed

theorem traced_same_result_witness:
  "fst (traced_invoke demo_tracer tagged_entry [(''messages'', VList [])] (Some 0)
          [[(''tag'', VStr ''demo''), (''callbacks'', VTuple [VObj ''UserHandler'' 9])]])
     = Inr [(''messages'', VList []), (''tag'', VStr ''demo'')]
   \<and> fst (tagged_entry [(''messages'', VList [])] (Some 0)
          [[(''tag'', VStr ''demo''), (''callbacks'', VTuple [VObj ''UserHandler'' 9])]])
     = Inr [(''messages'', VList []), (''tag'', VStr ''demo'')]"
proof -
  let ?hp = "[[(''tag'', VStr ''demo''), (''callbacks'', VTuple [VObj ''UserHandler'' 9])]]"
  have wf: "case Some 0 of None \<Rightarrow> True | Some a \<Rightarrow> a < length ?hp" by simp
  have it: "callbacks_iterable (Some 0) ?hp"
    by (simp add: callbacks_iterable_def dict_get_def)
  have rd: "\<And>c hp. (case c of None \<Rightarrow> VNone | Some a \<Rightarrow> dict_get (hp ! a) ''tag'' VNone)
              = (case config_view c hp ''tag'' of None \<Rightarrow> VNone | Some v \<Rightarrow> v)"
    by (simp add: config_view_def dict_get_def split: option.splits)
  have ind: "\<forall>c1 hp1 c2 hp2. config_view c1 hp1 = config_view c2 hp2
           \<longrightarrow> fst (tagged_entry [(''messages'', VList [])] c1 hp1)
               = fst (tagged_entry [(''messages'', VList [])] c2 hp2)"
    by (simp add: tagged_entry_def rd)
  from traced_same_result [where orig = tagged_entry and self = demo_tracer
      and st = "[(''messages'', VList [])]", OF wf it ind]
  show ?thesis by (simp add: tagged_entry_def dict_get_def)
qed

section \<open>The caller's configuration object\<close>

text \<open>
  C10, as the spec states it, holds for every dictionary the caller supplies. An empty
  dictionary is falsy: the wrapper works on a new dictionary (at address 1 below), and
  the caller's own (at address 0) stays empty, without the handle.
\<close>

theorem caller_config_mutated_counterexample:
  "snd (traced_invoke demo_tracer echo_entry [] (Some 0) [[]])
     = [[], [(''callbacks'', VList [VObj ''CallbackHandler'' 1])]]"
  by (simp add: traced_invoke_def demo_tracer_def echo_entry_def config_or_empty_def
      alloc_def dict_get_def)

text \<open>
  C10, amended. For a non-empty dictionary supplied by the caller, whose callbacks entry
  is absent or iterable with items \<open>items\<close>, both traced entry points write to that very
  object before they delegate: the original entry point runs on a heap that differs from
  the caller's only in that object, in which the callbacks key is bound to the list of
  \<open>items\<close> followed by the handle and every other key is bound as before. When the
  original entry point leaves the heap alone, that is the heap after the call.
\<close>

theorem caller_config_mutated:
  assumes "callback_handler self = Some h"
    and "a < length hp"
    and "hp ! a \<noteq> []"
    and "unpack (dict_get (hp ! a) ''callbacks'' (VList [])) = Inr items"
  shows "\<exists>hp2. traced_invoke self orig st (Some a) hp = orig st (Some a) hp2
             \<and> traced_ainvoke self orig st (Some a) hp = orig st (Some a) hp2
             \<and> length hp2 = length hp
             \<and> (\<forall>b. b \<noteq> a \<longrightarrow> hp2 ! b = hp ! b)
             \<and> map_of (hp2 ! a)
                 = (map_of (hp ! a))(''callbacks'' \<mapsto> VList (items @ [VObj ''CallbackHandler'' h]))
             \<and> ((\<forall>s c g. snd (orig s c g) = g)
                  \<longrightarrow> snd (traced_invoke self orig st (Some a) hp) = hp2
                    \<and> snd (traced_ainvoke self orig st (Some a) hp) = hp2)"
proof -
  let ?hp2 = "hp[a := dict_set ''callbacks''
                        (VList (items @ [VObj ''CallbackHandler'' h])) (hp ! a)]"
  have t: "traced_invoke self orig st (Some a) hp = orig st (Some a) ?hp2"
    using assms(1,3,4) by (simp add: traced_invoke_def config_or_empty_def)
  have m: "map_of (?hp2 ! a)
             = (map_of (hp ! a))(''callbacks'' \<mapsto> VList (items @ [VObj ''CallbackHandler'' h]))"
    using assms(2) by (simp add: map_of_dict_set)
  have "traced_invoke self orig st (Some a) hp = orig st (Some a) ?hp2
      \<and> traced_ainvoke self orig st (Some a) hp = orig st (Some a) ?hp2
      \<and> length ?hp2 = length hp
      \<and> (\<forall>b. b \<noteq> a \<longrightarrow> ?hp2 ! b = hp ! b)
      \<and> map_of (?hp2 ! a)
          = (map_of (hp ! a))(''callbacks'' \<mapsto> VList (items @ [VObj ''CallbackHandler'' h]))
      \<and> ((\<forall>s c g. snd (orig s c g) = g)
           \<longrightarrow> snd (traced_invoke self orig st (Some a) hp) = ?hp2
             \<and> snd (traced_ainvoke self orig st (Some a) hp) = ?hp2)"
    using m by (simp add: traced_ainvoke_eq t)
  then show ?thesis by (rule exI)
qed

theorem caller_config_mutated_witness:
  "map_of (snd (traced_invoke demo_tracer echo_entry [] (Some 0)
          [[(''tags'', VList [VStr ''x'']), (''callbacks'', VList [VObj ''UserHandler'' 9])],
           [(''other'', VInt 0)]]) ! 0) ''callbacks''
     = Some (VList [VObj ''UserHandler'' 9, VObj ''CallbackHandler'' 1])
   \<and> map_of (snd (traced_invoke demo_tracer echo_entry [] (Some 0)
          [[(''tags'', VList [VStr ''x'']), (''callbacks'', VList [VObj ''UserHandler'' 9])],
           [(''other'', VInt 0)]]) ! 0) ''tags''
     = Some (VList [VStr ''x''])
   \<and> snd (traced_invoke demo_tracer echo_entry [] (Some 0)
          [[(''tags'', VList [VStr ''x'']), (''callbacks'', VList [VObj ''UserHandler'' 9])],
           [(''other'', VInt 0)]]) ! 1
     = [(''other'', VInt 0)]"
proof -
  let ?hp = "[[(''tags'', VList [VStr ''x'']), (''callbacks'', VList [VObj ''UserHandler'' 9])],
              [(''other'', VInt 0)]]"
  have h1: "callback_handler demo_tracer = Some 1" by (simp add: demo_tracer_def)
  have h2: "(0::nat) < length ?hp" by simp
  have h3: "?hp ! 0 \<noteq> []" by simp
  have h4: "unpack (dict_get (?hp ! 0) ''callbacks'' (VList [])) = Inr [VObj ''UserHandler'' 9]"
    by (simp add: dict_get_def)
  have fr: "\<forall>s c g. snd (echo_entry s c g) = g" by (simp add: echo_entry_def)
  from caller_config_mutated [OF h1 h2 h3 h4, of echo_entry "[]"] fr
  obtain hp2 where s: "snd (traced_invoke demo_tracer echo_entry [] (Some 0) ?hp) = hp2"
    and o: "\<forall>b. b \<noteq> 0 \<longrightarrow> hp2 ! b = ?hp ! b"
    and m: "map_of (hp2 ! 0) = (map_of (?hp ! 0))
              (''callbacks'' \<mapsto> VList ([VObj ''UserHandler'' 9] @ [VObj ''CallbackHandler'' 1]))"
    by blast
  from o have "hp2 ! 1 = ?hp ! 1" by simp
  then show ?thesis unfolding s m by simp
qed

section \<open>Writing the arguments to the environment\<close>





section \<open>Constructing the tracer: degrade, never fail\<close>








section \<open>Explicit arguments and the environment\<close>




end
